theory Spec2Isabelle
  imports Main "HOL-Library.Char_ord" "HOL-Library.Multiset"
begin

section \<open>Strategy (Observer/Observer.cpp, second translation unit)\<close>

text \<open>
  Both concrete strategies copy their argument and call \<^verbatim>\<open>std::sort\<close> with a comparator
  (\<^verbatim>\<open>std::less<>\<close>, \<^verbatim>\<open>std::greater<>\<close>). The library routine is modelled by a comparator
  driven insertion sort: \<open>place cmp x ys\<close> puts \<open>x\<close> in front of the first element \<open>y\<close>
  with \<open>cmp x y\<close>. The element type is any linear order, so that the results do not
  depend on whether the platform's \<^verbatim>\<open>char\<close> is signed; on \<open>char\<close> the order of
  \<open>HOL-Library.Char_ord\<close> is the byte value, which is the C++ order on ASCII text.
\<close>

fun place :: "('a \<Rightarrow> 'a \<Rightarrow> bool) \<Rightarrow> 'a \<Rightarrow> 'a list \<Rightarrow> 'a list" where
  "place cmp x [] = [x]"
| "place cmp x (y # ys) = (if cmp x y then x # y # ys else y # place cmp x ys)"

fun std_sort :: "('a \<Rightarrow> 'a \<Rightarrow> bool) \<Rightarrow> 'a list \<Rightarrow> 'a list" where
  "std_sort cmp [] = []"
| "std_sort cmp (x # xs) = place cmp x (std_sort cmp xs)"

datatype Strategy = ConcreteStrategyA | ConcreteStrategyB

definition ConcreteStrategyA_doAlgorithm :: "'a::linorder list \<Rightarrow> 'a list" where
  "ConcreteStrategyA_doAlgorithm data = std_sort (\<lambda>a b. a < b) data"

definition ConcreteStrategyB_doAlgorithm :: "'a::linorder list \<Rightarrow> 'a list" where
  "ConcreteStrategyB_doAlgorithm data = std_sort (\<lambda>a b. a > b) data"

text \<open>The virtual call \<^verbatim>\<open>strategy_->doAlgorithm(data)\<close>.\<close>

fun doAlgorithm :: "Strategy \<Rightarrow> 'a::linorder list \<Rightarrow> 'a list" where
  "doAlgorithm ConcreteStrategyA data = ConcreteStrategyA_doAlgorithm data"
| "doAlgorithm ConcreteStrategyB data = ConcreteStrategyB_doAlgorithm data"

text \<open>
  The context owns a \<^verbatim>\<open>std::unique_ptr<Strategy>\<close>; the empty pointer is \<open>None\<close>. The
  constructor's default argument is the empty pointer. What \<^verbatim>\<open>doSomeBusinessLogic\<close>
  writes to \<^verbatim>\<open>std::cout\<close> is returned as the list of the strings written. Here and
  below a member such as \<^verbatim>\<open>strategy_\<close> loses its trailing underscore, which Isabelle
  does not accept in a name.
\<close>

record Context =
  strategy :: "Strategy option"

definition Context_new :: "Strategy option \<Rightarrow> Context" where
  "Context_new s = \<lparr>strategy = s\<rparr>"

definition Context_default :: Context where
  "Context_default = Context_new None"

definition set_strategy :: "Context \<Rightarrow> Strategy option \<Rightarrow> Context" where
  "set_strategy ctx s = ctx\<lparr>strategy := s\<rparr>"

definition doSomeBusinessLogic :: "Context \<Rightarrow> string \<Rightarrow> string list" where
  "doSomeBusinessLogic ctx text_to_sort =
     (case strategy ctx of
        Some s \<Rightarrow>
          [''Context: Sorting data using the strategy (not sure how it will do it)\<newline>'',
           doAlgorithm s text_to_sort @ ''\<newline>'']
      | None \<Rightarrow> [''Context: Strategy isn't set\<newline>''])"

section \<open>Decorator (Decorator/Decorator.cpp)\<close>

text \<open>
  A decorator holds a \<^verbatim>\<open>Component*\<close>; the null pointer is \<open>None\<close>, and calling through it
  has no result (\<open>None\<close>). The three concrete decorators call \<^verbatim>\<open>Decorator::Operation()\<close>,
  which forwards to the wrapped component, and put their own text around the result.
\<close>

datatype Component =
    ConcreteComponent
  | Decorator "Component option"
  | ConcreteDecoratorA "Component option"
  | ConcreteDecoratorB "Component option"
  | ConcreteDecoratorC "Component option"

fun Operation :: "Component \<Rightarrow> string option" where
  "Operation ConcreteComponent = Some ''ConcreteComponent''"
| "Operation (Decorator None) = None"
| "Operation (Decorator (Some c)) = Operation c"
| "Operation (ConcreteDecoratorA None) = None"
| "Operation (ConcreteDecoratorA (Some c)) =
     map_option (\<lambda>r. ''ConcreteDecoratorA('' @ r @ '')'') (Operation c)"
| "Operation (ConcreteDecoratorB None) = None"
| "Operation (ConcreteDecoratorB (Some c)) =
     map_option (\<lambda>r. ''ConcreteDecoratorB('' @ r @ '')'') (Operation c)"
| "Operation (ConcreteDecoratorC None) = None"
| "Operation (ConcreteDecoratorC (Some c)) =
     map_option (\<lambda>r. ''ConcreteDecoratorC('' @ r @ '')'') (Operation c)"

text \<open>
  Vocabulary for a stack of concrete decorators: \<open>decorate k c\<close> is
  \<^verbatim>\<open>new ConcreteDecoratorK(c)\<close>, \<open>marker k\<close> the class's text, and \<open>stack ks c\<close> wraps
  \<open>c\<close> with the decorators \<open>ks\<close>, the first of the list innermost.
\<close>

datatype decorator_class = DecA | DecB | DecC

fun decorate :: "decorator_class \<Rightarrow> Component \<Rightarrow> Component" where
  "decorate DecA c = ConcreteDecoratorA (Some c)"
| "decorate DecB c = ConcreteDecoratorB (Some c)"
| "decorate DecC c = ConcreteDecoratorC (Some c)"

fun marker :: "decorator_class \<Rightarrow> string" where
  "marker DecA = ''ConcreteDecoratorA''"
| "marker DecB = ''ConcreteDecoratorB''"
| "marker DecC = ''ConcreteDecoratorC''"

fun stack :: "decorator_class list \<Rightarrow> Component \<Rightarrow> Component" where
  "stack [] c = c"
| "stack (k # ks) c = stack ks (decorate k c)"

section \<open>Observer (Observer/Observer.cpp, first translation unit)\<close>

text \<open>
  The publisher keeps a \<^verbatim>\<open>std::list<IObserver*>\<close>; an observer pointer is a number.
  \<^verbatim>\<open>Attach\<close> is \<^verbatim>\<open>push_back\<close>. \<^verbatim>\<open>Detach\<close> calls \<^verbatim>\<open>std::list::remove(value)\<close>, the
  library member that walks the whole list and erases each element equal to \<open>value\<close>;
  \<open>list_remove\<close> is that walk.
\<close>

record Publisher =
  list_observer :: "nat list"
  message :: string

definition Publisher_new :: Publisher where
  "Publisher_new = \<lparr>list_observer = [], message = []\<rparr>"

fun list_remove :: "'a \<Rightarrow> 'a list \<Rightarrow> 'a list" where
  "list_remove v [] = []"
| "list_remove v (x # xs) = (if x = v then list_remove v xs else x # list_remove v xs)"

definition Attach :: "Publisher \<Rightarrow> nat \<Rightarrow> Publisher" where
  "Attach p observer = p\<lparr>list_observer := list_observer p @ [observer]\<rparr>"

definition Detach :: "Publisher \<Rightarrow> nat \<Rightarrow> Publisher" where
  "Detach p observer = p\<lparr>list_observer := list_remove observer (list_observer p)\<rparr>"

section \<open>Command (Command/Command.cpp, first translation unit)\<close>

text \<open>
  Pointers are numbers, \<open>0\<close> the null pointer. The memory holds the live command objects
  and the addresses of the live receivers. Calling through a pointer that is not the
  address of a live object is undefined behaviour in C++; the model makes it the fault
  \<open>WildPointer\<close>. Output is the list of the lines written to \<^verbatim>\<open>std::cout\<close>.

  \<^verbatim>\<open>Invoker\<close> declares no constructor and gives its two members no initialiser, and the
  driver creates it with \<^verbatim>\<open>new Invoker\<close>: the members start with whatever the storage
  held. \<open>Invoker_new\<close> therefore takes those two prior contents as arguments.
\<close>

datatype Command =
    SimpleCommand string
  | ComplexCommand nat string string

record memory =
  commands :: "nat \<rightharpoonup> Command"
  receivers :: "nat list"

datatype fault = WildPointer nat

definition DoSomething :: "string \<Rightarrow> string list" where
  "DoSomething a = [''Receiver: Working on ('' @ a @ ''.)\<newline>'']"

definition DoSomethingElse :: "string \<Rightarrow> string list" where
  "DoSomethingElse b = [''Receiver: Also working on ('' @ b @ ''.)\<newline>'']"

fun Execute :: "memory \<Rightarrow> Command \<Rightarrow> fault + string list" where
  "Execute mem (SimpleCommand pay_load) =
     Inr [''SimpleCommand: See, I can do simple things like printing ('' @ pay_load @ '')\<newline>'']"
| "Execute mem (ComplexCommand receiver a b) =
     (if receiver \<in> set (receivers mem)
      then Inr ([''ComplexCommand: Complex stuff should be done by a receiver object.\<newline>'']
                @ DoSomething a @ DoSomethingElse b)
      else Inl (WildPointer receiver))"

text \<open>The virtual call \<^verbatim>\<open>ptr->Execute()\<close> through a \<^verbatim>\<open>Command*\<close>.\<close>

definition Execute_at :: "memory \<Rightarrow> nat \<Rightarrow> fault + string list" where
  "Execute_at mem ptr =
     (case commands mem ptr of None \<Rightarrow> Inl (WildPointer ptr) | Some c \<Rightarrow> Execute mem c)"

record Invoker =
  on_start :: nat
  on_finish :: nat

definition Invoker_new :: "nat \<Rightarrow> nat \<Rightarrow> Invoker" where
  "Invoker_new storage1 storage2 = \<lparr>on_start = storage1, on_finish = storage2\<rparr>"

definition SetOnStart :: "Invoker \<Rightarrow> nat \<Rightarrow> Invoker" where
  "SetOnStart ivk command = ivk\<lparr>on_start := command\<rparr>"

definition SetOnFinish :: "Invoker \<Rightarrow> nat \<Rightarrow> Invoker" where
  "SetOnFinish ivk command = ivk\<lparr>on_finish := command\<rparr>"

definition DoSomethingImportant :: "memory \<Rightarrow> Invoker \<Rightarrow> fault + string list" where
  "DoSomethingImportant mem ivk =
     (case (if on_start ivk \<noteq> 0 then Execute_at mem (on_start ivk) else Inr []) of
        Inl f \<Rightarrow> Inl f
      | Inr out1 \<Rightarrow>
          (case (if on_finish ivk \<noteq> 0 then Execute_at mem (on_finish ivk) else Inr []) of
             Inl f \<Rightarrow> Inl f
           | Inr out2 \<Rightarrow>
               Inr ([''Invoker: Does anybody want something done before I begin?\<newline>''] @ out1
                    @ [''Invoker: ...doing something really important...\<newline>'',
                       ''Invoker: Does anybody want something done after I finish?\<newline>'']
                    @ out2)))"

section \<open>Singleton (unnamed/part_000)\<close>

text \<open>
  The class's static state is the pointer \<open>m_instance_ptr\<close> (\<open>None\<close> is \<^verbatim>\<open>nullptr\<close>)
  together with the Singleton objects constructed so far; a pointer is an index into
  that list, so that each \<^verbatim>\<open>new Singleton(value)\<close> is visible as one more element. This
  section is one thread's view: \<open>GetInstance\<close> is the body run under the lock.
\<close>

record Singleton =
  m_value :: string

record Singleton_static =
  m_instance_ptr :: "nat option"
  objects :: "Singleton list"

definition Singleton_static_init :: Singleton_static where
  "Singleton_static_init = \<lparr>m_instance_ptr = None, objects = []\<rparr>"

definition Singleton_ctor :: "string \<Rightarrow> Singleton" where
  "Singleton_ctor v = \<lparr>m_value = v\<rparr>"

definition GetInstance :: "string \<Rightarrow> Singleton_static \<Rightarrow> nat \<times> Singleton_static" where
  "GetInstance v st =
     (case m_instance_ptr st of
        None \<Rightarrow>
          (length (objects st),
           st\<lparr>objects := objects st @ [Singleton_ctor v],
              m_instance_ptr := Some (length (objects st))\<rparr>)
      | Some p \<Rightarrow> (p, st))"

definition Value :: "Singleton_static \<Rightarrow> nat \<Rightarrow> string option" where
  "Value st p = (if p < length (objects st) then Some (m_value (objects st ! p)) else None)"

definition SomeBusinessLogic :: "Singleton_static \<Rightarrow> nat \<Rightarrow> Singleton_static" where
  "SomeBusinessLogic st p = st"

text \<open>
  The public operations of the class, and their effect on the static state. The
  destructor is protected and copying is deleted, so these are all a client has.
\<close>

datatype singleton_call = Call_GetInstance string | Call_Value nat | Call_SomeBusinessLogic nat

fun singleton_step :: "singleton_call \<Rightarrow> Singleton_static \<Rightarrow> Singleton_static" where
  "singleton_step (Call_GetInstance v) st = snd (GetInstance v st)"
| "singleton_step (Call_Value p) st = st"
| "singleton_step (Call_SomeBusinessLogic p) st = SomeBusinessLogic st p"

text \<open>
  A sequence of clients, each doing what \<^verbatim>\<open>ThreadFoo\<close> does: \<^verbatim>\<open>GetInstance(v)\<close>, then
  \<^verbatim>\<open>Value()\<close> on the pointer returned. The result lists, per client, the pointer and the
  value read.
\<close>

fun clients :: "string list \<Rightarrow> Singleton_static \<Rightarrow> (nat \<times> string option) list \<times> Singleton_static" where
  "clients [] st = ([], st)"
| "clients (v # vs) st =
     (case GetInstance v st of
        (p, st') \<Rightarrow> (case clients vs st' of (rs, st'') \<Rightarrow> ((p, Value st' p) # rs, st'')))"

text \<open>
  Concurrent callers. Each thread runs the body of \<^verbatim>\<open>GetInstance\<close> one access to shared
  state at a time; its program counter says which access is next:
  \<^item> \<open>Entry\<close>: the constructor of \<^verbatim>\<open>std::lock_guard\<close>, which acquires \<open>m_mutex\<close> and can
    only run while no thread owns it (otherwise the thread does not advance);
  \<^item> \<open>Test\<close>: the read of \<open>m_instance_ptr\<close> in \<^verbatim>\<open>if (m_instance_ptr == nullptr)\<close>;
  \<^item> \<open>Construct\<close>: \<^verbatim>\<open>new Singleton(value)\<close>, with the thread's own argument;
  \<^item> \<open>Assign a\<close>: the store of the new address \<open>a\<close> into \<open>m_instance_ptr\<close>;
  \<^item> \<open>Return\<close>: the read of \<open>m_instance_ptr\<close> for the return value;
  \<^item> \<open>Unlock r\<close>: the destructor of the guard, releasing the mutex;
  \<^item> \<open>Done r\<close>: the call has returned \<open>r\<close>.
  The mutex records its owner. A schedule is the list of the thread ids in the order
  in which the scheduler lets them take a step; \<open>run\<close> executes it. \<open>arg t\<close> is the
  argument with which thread \<open>t\<close> calls \<^verbatim>\<open>GetInstance\<close>.
\<close>

datatype pc = Entry | Test | Construct | Assign nat | Return | Unlock "nat option" | Done "nat option"

record Singleton_threads = Singleton_static +
  m_mutex :: "nat option"
  threads :: "nat \<Rightarrow> pc"

definition threads_init :: Singleton_threads where
  "threads_init = \<lparr>m_instance_ptr = None, objects = [], m_mutex = None, threads = (\<lambda>t. Entry)\<rparr>"

definition thread_step :: "(nat \<Rightarrow> string) \<Rightarrow> nat \<Rightarrow> Singleton_threads \<Rightarrow> Singleton_threads" where
  "thread_step arg t s =
     (case threads s t of
        Entry \<Rightarrow>
          (case m_mutex s of
             None \<Rightarrow> s\<lparr>m_mutex := Some t, threads := (threads s)(t := Test)\<rparr>
           | Some owner \<Rightarrow> s)
      | Test \<Rightarrow>
          (if m_instance_ptr s = None
           then s\<lparr>threads := (threads s)(t := Construct)\<rparr>
           else s\<lparr>threads := (threads s)(t := Return)\<rparr>)
      | Construct \<Rightarrow>
          s\<lparr>objects := objects s @ [Singleton_ctor (arg t)],
            threads := (threads s)(t := Assign (length (objects s)))\<rparr>
      | Assign a \<Rightarrow> s\<lparr>m_instance_ptr := Some a, threads := (threads s)(t := Return)\<rparr>
      | Return \<Rightarrow> s\<lparr>threads := (threads s)(t := Unlock (m_instance_ptr s))\<rparr>
      | Unlock r \<Rightarrow> s\<lparr>m_mutex := None, threads := (threads s)(t := Done r)\<rparr>
      | Done r \<Rightarrow> s)"

definition run :: "(nat \<Rightarrow> string) \<Rightarrow> nat list \<Rightarrow> Singleton_threads \<Rightarrow> Singleton_threads" where
  "run arg schedule s = fold (thread_step arg) schedule s"


text \<open>
  The invariant of the interleaved execution. \<open>made\<close>: exactly one object exists, built
  from some thread's argument. \<open>stable\<close>: the state between two calls, either nothing
  constructed and the pointer null, or the pointer at the one object. \<open>thread_ok\<close>: what
  a thread at each program counter knows, including that it owns the mutex inside the
  guarded region (\<open>holds_lock\<close>).
\<close>

definition made :: "(nat \<Rightarrow> string) \<Rightarrow> Singleton_threads \<Rightarrow> bool" where
  "made arg s \<longleftrightarrow> (\<exists>w. objects s = [Singleton_ctor (arg w)])"

definition stable :: "(nat \<Rightarrow> string) \<Rightarrow> Singleton_threads \<Rightarrow> bool" where
  "stable arg s \<longleftrightarrow>
     m_instance_ptr s = None \<and> objects s = [] \<or> m_instance_ptr s = Some 0 \<and> made arg s"

fun thread_ok :: "(nat \<Rightarrow> string) \<Rightarrow> Singleton_threads \<Rightarrow> nat \<Rightarrow> pc \<Rightarrow> bool" where
  "thread_ok arg s t Entry = True"
| "thread_ok arg s t Test = (m_mutex s = Some t \<and> stable arg s)"
| "thread_ok arg s t Construct = (m_mutex s = Some t \<and> m_instance_ptr s = None \<and> objects s = [])"
| "thread_ok arg s t (Assign a) =
     (m_mutex s = Some t \<and> a = 0 \<and> m_instance_ptr s = None \<and> made arg s)"
| "thread_ok arg s t Return = (m_mutex s = Some t \<and> m_instance_ptr s = Some 0 \<and> made arg s)"
| "thread_ok arg s t (Unlock r) =
     (m_mutex s = Some t \<and> r = Some 0 \<and> m_instance_ptr s = Some 0 \<and> made arg s)"
| "thread_ok arg s t (Done r) = (r = Some 0 \<and> m_instance_ptr s = Some 0 \<and> made arg s)"

fun holds_lock :: "pc \<Rightarrow> bool" where
  "holds_lock Entry = False"
| "holds_lock (Done r) = False"
| "holds_lock Test = True"
| "holds_lock Construct = True"
| "holds_lock (Assign a) = True"
| "holds_lock Return = True"
| "holds_lock (Unlock r) = True"

definition invar :: "(nat \<Rightarrow> string) \<Rightarrow> Singleton_threads \<Rightarrow> bool" where
  "invar arg s \<longleftrightarrow>
     (\<forall>u. thread_ok arg s u (threads s u))
     \<and> (case m_mutex s of None \<Rightarrow> stable arg s | Some t \<Rightarrow> holds_lock (threads s t))"

section \<open>Prototype (Prototype/Prototype.cpp)\<close>

text \<open>
  The two concrete classes carry the base members \<^verbatim>\<open>prototype_name_\<close> and
  \<^verbatim>\<open>prototype_field_\<close> and one member of their own. The values of type \<^verbatim>\<open>float\<close> are
  only stored and copied, never computed with: their type is the parameter \<open>'f\<close>.
  Objects live in a heap, a list indexed by address; \<^verbatim>\<open>new\<close> appends. \<^verbatim>\<open>Clone\<close> runs the
  implicit copy constructor of the receiver's own class, which copies member by member;
  using a pointer that is not the address of an object has no result (\<open>None\<close>).
  \<^verbatim>\<open>Method\<close> overwrites \<^verbatim>\<open>prototype_field_\<close> of the receiver; the line it prints is left out.
\<close>

datatype 'f Prototype =
    ConcretePrototype1 (prototype_name: string) (prototype_field: 'f) (concrete_prototype_field1: 'f)
  | ConcretePrototype2 (prototype_name: string) (prototype_field: 'f) (concrete_prototype_field2: 'f)

definition deref :: "'a list \<Rightarrow> nat \<Rightarrow> 'a option" where
  "deref h p = (if p < length h then Some (h ! p) else None)"

fun copy_construct :: "'f Prototype \<Rightarrow> 'f Prototype" where
  "copy_construct (ConcretePrototype1 n f c) = ConcretePrototype1 n f c"
| "copy_construct (ConcretePrototype2 n f c) = ConcretePrototype2 n f c"

definition Clone :: "'f Prototype list \<Rightarrow> nat \<Rightarrow> (nat \<times> 'f Prototype list) option" where
  "Clone h this =
     (case deref h this of
        None \<Rightarrow> None
      | Some obj \<Rightarrow> Some (length h, h @ [copy_construct obj]))"

fun assign_prototype_field :: "'f Prototype \<Rightarrow> 'f \<Rightarrow> 'f Prototype" where
  "assign_prototype_field (ConcretePrototype1 n f c) v = ConcretePrototype1 n v c"
| "assign_prototype_field (ConcretePrototype2 n f c) v = ConcretePrototype2 n v c"

definition Method :: "'f Prototype list \<Rightarrow> nat \<Rightarrow> 'f \<Rightarrow> 'f Prototype list option" where
  "Method h this v =
     (case deref h this of
        None \<Rightarrow> None
      | Some obj \<Rightarrow> Some (h[this := assign_prototype_field obj v]))"

section \<open>Flyweight (Flyweight/Flyweight.cpp)\<close>

text \<open>
  A \<^verbatim>\<open>Flyweight\<close> object has one member, the pointer \<^verbatim>\<open>shared_state_\<close> to a
  \<^verbatim>\<open>SharedState\<close> that its constructor allocates with \<^verbatim>\<open>new\<close> and its destructor
  deletes. The free store is a list of cells indexed by address: \<^verbatim>\<open>new\<close> appends a
  cell, \<^verbatim>\<open>delete\<close> empties one, and no address is handed out twice, so that two
  objects alive at the same time never share an address. Every constructor of
  \<^verbatim>\<open>Flyweight\<close> allocates, so two \<^verbatim>\<open>Flyweight\<close> objects with different
  \<open>shared_state\<close> pointers are different objects. Reading through a pointer to an
  empty or missing cell has no result (\<open>None\<close>).
\<close>

record SharedState =
  brand :: string
  model :: string
  color :: string

record Flyweight =
  shared_state :: nat

type_synonym store = "SharedState option list"

definition new_SharedState :: "store \<Rightarrow> SharedState \<Rightarrow> nat \<times> store" where
  "new_SharedState st ss = (length st, st @ [Some ss])"

definition delete_SharedState :: "store \<Rightarrow> nat \<Rightarrow> store" where
  "delete_SharedState st a = st[a := None]"

definition load :: "store \<Rightarrow> nat \<Rightarrow> SharedState option" where
  "load st a = (if a < length st then st ! a else None)"

text \<open>\<^verbatim>\<open>Flyweight(const SharedState*)\<close>, the copy constructor and the destructor.\<close>

definition Flyweight_ctor :: "store \<Rightarrow> SharedState \<Rightarrow> Flyweight \<times> store" where
  "Flyweight_ctor st ss = (case new_SharedState st ss of (a, st') \<Rightarrow> (\<lparr>shared_state = a\<rparr>, st'))"

definition Flyweight_copy :: "store \<Rightarrow> Flyweight \<Rightarrow> (Flyweight \<times> store) option" where
  "Flyweight_copy st other =
     (case load st (shared_state other) of
        None \<Rightarrow> None
      | Some ss \<Rightarrow> Some (Flyweight_ctor st ss))"

definition Flyweight_dtor :: "store \<Rightarrow> Flyweight \<Rightarrow> store" where
  "Flyweight_dtor st fw = delete_SharedState st (shared_state fw)"

text \<open>
  The factory's \<^verbatim>\<open>std::unordered_map<std::string, Flyweight>\<close> is an association list
  with one entry per key, read with \<open>map_of\<close>.
\<close>

record FlyweightFactory =
  flyweights :: "(string \<times> Flyweight) list"

definition GetKey :: "SharedState \<Rightarrow> string" where
  "GetKey ss = brand ss @ ''_'' @ model ss @ ''_'' @ color ss"

text \<open>
  The statement \<^verbatim>\<open>flyweights_.insert(std::make_pair(key, Flyweight(&ss)))\<close>. The
  temporary \<^verbatim>\<open>Flyweight(&ss)\<close> is copied into the pair, and the pair's member into the
  map's node (the class declares a copy constructor and so has no move constructor);
  pair and temporary are destroyed at the end of the statement. \<^verbatim>\<open>insert\<close> leaves the
  map as it was when the key is present, and the node built for it is destroyed.
\<close>

definition insert_new :: "store \<Rightarrow> FlyweightFactory \<Rightarrow> string \<Rightarrow> SharedState
    \<Rightarrow> (store \<times> FlyweightFactory) option" where
  "insert_new st f key ss =
     (case Flyweight_ctor st ss of (tmp, st1) \<Rightarrow>
        (case Flyweight_copy st1 tmp of
           None \<Rightarrow> None
         | Some (pr, st2) \<Rightarrow>
             (case Flyweight_copy st2 pr of
                None \<Rightarrow> None
              | Some (node, st3) \<Rightarrow>
                  (let st4 = Flyweight_dtor (Flyweight_dtor st3 pr) tmp in
                   if map_of (flyweights f) key = None
                   then Some (st4, f\<lparr>flyweights := flyweights f @ [(key, node)]\<rparr>)
                   else Some (Flyweight_dtor st4 node, f)))))"

fun insert_all :: "store \<Rightarrow> FlyweightFactory \<Rightarrow> SharedState list
    \<Rightarrow> (store \<times> FlyweightFactory) option" where
  "insert_all st f [] = Some (st, f)"
| "insert_all st f (ss # rest) =
     (case insert_new st f (GetKey ss) ss of
        None \<Rightarrow> None
      | Some (st', f') \<Rightarrow> insert_all st' f' rest)"

definition FlyweightFactory_ctor :: "store \<Rightarrow> SharedState list
    \<Rightarrow> (store \<times> FlyweightFactory) option" where
  "FlyweightFactory_ctor st share_states = insert_all st \<lparr>flyweights = []\<rparr> share_states"

text \<open>
  \<^verbatim>\<open>GetFlyweight\<close> has the return type \<^verbatim>\<open>Flyweight\<close>, not a reference:
  \<^verbatim>\<open>return this->flyweights_.at(key)\<close> copy-constructs the object handed to the caller
  from the cached one. The result is that object, the new store, the new factory and
  the line written.
\<close>

definition GetFlyweight :: "store \<Rightarrow> FlyweightFactory \<Rightarrow> SharedState
    \<Rightarrow> (Flyweight \<times> store \<times> FlyweightFactory \<times> string list) option" where
  "GetFlyweight st f ss =
     (let key = GetKey ss in
      case (if map_of (flyweights f) key = None
            then map_option
                   (\<lambda>(st', f').
                      (st', f', [''FlyweightFactory: Cannot find a flyweight, creating new one.\<newline>'']))
                   (insert_new st f key ss)
            else Some (st, f, [''FlyweightFactory: Reusing existing flyweight.\<newline>''])) of
        None \<Rightarrow> None
      | Some (st1, f1, out) \<Rightarrow>
          (case map_of (flyweights f1) key of
             None \<Rightarrow> None
           | Some cached \<Rightarrow>
               (case Flyweight_copy st1 cached of
                  None \<Rightarrow> None
                | Some (result, st2) \<Rightarrow> Some (result, st2, f1, out))))"

section \<open>Strategy: results\<close>

lemma mset_place: "mset (place cmp x ys) = add_mset x (mset ys)"
  by (induction ys) simp_all

lemma mset_std_sort: "mset (std_sort cmp xs) = mset xs"
  by (induction xs) (simp_all add: mset_place)

lemma set_place: "set (place cmp x ys) = insert x (set ys)"
  by (induction ys) auto

lemma ascending_place:
  fixes x :: "'a::linorder"
  shows "sorted_wrt (\<le>) ys \<Longrightarrow> sorted_wrt (\<le>) (place (\<lambda>a b. a < b) x ys)"
  by (induction ys) (auto simp: set_place)

lemma descending_place:
  fixes x :: "'a::linorder"
  shows "sorted_wrt (\<ge>) ys \<Longrightarrow> sorted_wrt (\<ge>) (place (\<lambda>a b. a > b) x ys)"
  by (induction ys) (auto simp: set_place)

lemma ascending_std_sort:
  fixes xs :: "'a::linorder list"
  shows "sorted_wrt (\<le>) (std_sort (\<lambda>a b. a < b) xs)"
  by (induction xs) (simp_all add: ascending_place)

lemma descending_std_sort:
  fixes xs :: "'a::linorder list"
  shows "sorted_wrt (\<ge>) (std_sort (\<lambda>a b. a > b) xs)"
  by (induction xs) (simp_all add: descending_place)

text \<open>
  Claim C6. On \<open>''haegicbjdf''\<close> the ascending strategy returns \<open>''abcdefghij''\<close> and the
  descending strategy \<open>''jihgfedcba''\<close>; on every input the ascending strategy returns
  the same characters (as a multiset) in ascending order and the descending strategy
  the same characters in descending order.
\<close>

theorem C6_doAlgorithm_sorts:
  fixes xs :: "'a::linorder list"
  shows "doAlgorithm ConcreteStrategyA ''haegicbjdf'' = ''abcdefghij''
       \<and> doAlgorithm ConcreteStrategyB ''haegicbjdf'' = ''jihgfedcba''
       \<and> sorted_wrt (\<le>) (doAlgorithm ConcreteStrategyA xs)
       \<and> mset (doAlgorithm ConcreteStrategyA xs) = mset xs
       \<and> sorted_wrt (\<ge>) (doAlgorithm ConcreteStrategyB xs)
       \<and> mset (doAlgorithm ConcreteStrategyB xs) = mset xs"
proof -
  have a: "doAlgorithm ConcreteStrategyA ''haegicbjdf'' = ''abcdefghij''"
    by (simp add: ConcreteStrategyA_doAlgorithm_def)
  have b: "doAlgorithm ConcreteStrategyB ''haegicbjdf'' = ''jihgfedcba''"
    by (simp add: ConcreteStrategyB_doAlgorithm_def)
  have c: "sorted_wrt (\<le>) (doAlgorithm ConcreteStrategyA xs)"
    by (simp add: ConcreteStrategyA_doAlgorithm_def ascending_std_sort)
  have d: "mset (doAlgorithm ConcreteStrategyA xs) = mset xs"
    by (simp add: ConcreteStrategyA_doAlgorithm_def mset_std_sort)
  have e: "sorted_wrt (\<ge>) (doAlgorithm ConcreteStrategyB xs)"
    by (simp add: ConcreteStrategyB_doAlgorithm_def descending_std_sort)
  have f: "mset (doAlgorithm ConcreteStrategyB xs) = mset xs"
    by (simp add: ConcreteStrategyB_doAlgorithm_def mset_std_sort)
  from a b c d e f show ?thesis by blast
qed

text \<open>
  Claim C7. A context whose strategy pointer is empty writes exactly the line
  "Context: Strategy isn't set" and nothing else, whatever the text to sort is: no
  strategy is called, and the call returns. The default-constructed context is in that
  state, and so is a context whose strategy was reset to the empty pointer.
\<close>

theorem C7_unset_strategy_reported:
  "strategy ctx = None \<Longrightarrow>
     doSomeBusinessLogic ctx text_to_sort = [''Context: Strategy isn't set\<newline>'']"
  by (simp add: doSomeBusinessLogic_def)

theorem C7_unset_strategy_witness:
  "strategy Context_default = None
   \<and> strategy (set_strategy (Context_new (Some ConcreteStrategyA)) None) = None
   \<and> doSomeBusinessLogic Context_default ''haegicbjdf'' = [''Context: Strategy isn't set\<newline>'']
   \<and> doSomeBusinessLogic (set_strategy (Context_new (Some ConcreteStrategyA)) None) ''haegicbjdf''
       = [''Context: Strategy isn't set\<newline>'']
   \<and> doSomeBusinessLogic (Context_new (Some ConcreteStrategyA)) ''haegicbjdf''
       \<noteq> [''Context: Strategy isn't set\<newline>'']"
proof -
  have h1: "strategy Context_default = None"
    by (simp add: Context_default_def Context_new_def)
  have h2: "strategy (set_strategy (Context_new (Some ConcreteStrategyA)) None) = None"
    by (simp add: set_strategy_def Context_new_def)
  have set: "doSomeBusinessLogic (Context_new (Some ConcreteStrategyA)) ''haegicbjdf''
       \<noteq> [''Context: Strategy isn't set\<newline>'']"
    by (simp add: doSomeBusinessLogic_def Context_new_def)
  from h1 h2 set
    C7_unset_strategy_reported [OF h1, of "''haegicbjdf''"]
    C7_unset_strategy_reported [OF h2, of "''haegicbjdf''"]
  show ?thesis by blast
qed

section \<open>Decorator: results\<close>

lemma Operation_decorate:
  "Operation (decorate k c) = map_option (\<lambda>r. marker k @ ''('' @ r @ '')'') (Operation c)"
  by (cases k) simp_all

lemma Operation_stack:
  "Operation (stack ks c) =
     map_option (\<lambda>r. concat (map (\<lambda>k. marker k @ ''('') (rev ks)) @ r @ replicate (length ks) CHR '')'')
       (Operation c)"
proof (induction ks arbitrary: c)
  case Nil
  show ?case by (simp add: option.map_ident)
next
  case (Cons k ks)
  show ?case
    by (simp add: Cons.IH Operation_decorate option.map_comp o_def
        replicate_append_same)
qed

text \<open>
  Claim C8. Wrapping a component \<open>c\<close> with the concrete decorators \<open>ks\<close> (first of the
  list innermost) makes \<open>Operation\<close> return the result of \<open>c\<close> with one marker and
  opening bracket per decorator in front, outermost first, and one closing bracket per
  decorator behind. ConcreteComponent returns "ConcreteComponent"; decorators A, then B,
  then C around it give the literal nesting C(B(A(ConcreteComponent))); the base Decorator
  forwards the wrapped component's result unchanged.
\<close>

theorem C8_decorator_nesting:
  "Operation (stack ks c) =
     map_option (\<lambda>r. concat (map (\<lambda>k. marker k @ ''('') (rev ks)) @ r @ replicate (length ks) CHR '')'')
       (Operation c)
   \<and> Operation ConcreteComponent = Some ''ConcreteComponent''
   \<and> Operation (stack [DecA, DecB, DecC] ConcreteComponent) =
       Some ''ConcreteDecoratorC(ConcreteDecoratorB(ConcreteDecoratorA(ConcreteComponent)))''
   \<and> stack [DecA, DecB, DecC] ConcreteComponent =
       ConcreteDecoratorC (Some (ConcreteDecoratorB (Some (ConcreteDecoratorA (Some ConcreteComponent)))))
   \<and> Operation (Decorator (Some c)) = Operation c"
proof -
  have g: "Operation (stack ks c) =
     map_option (\<lambda>r. concat (map (\<lambda>k. marker k @ ''('') (rev ks)) @ r @ replicate (length ks) CHR '')'')
       (Operation c)"
    by (rule Operation_stack)
  have e: "Operation (stack [DecA, DecB, DecC] ConcreteComponent) =
       Some ''ConcreteDecoratorC(ConcreteDecoratorB(ConcreteDecoratorA(ConcreteComponent)))''"
    by simp
  have s: "stack [DecA, DecB, DecC] ConcreteComponent =
       ConcreteDecoratorC (Some (ConcreteDecoratorB (Some (ConcreteDecoratorA (Some ConcreteComponent)))))"
    by simp
  from g e s show ?thesis by simp
qed

section \<open>Observer: results\<close>

lemma list_remove_filter: "list_remove v xs = filter (\<lambda>x. x \<noteq> v) xs"
  by (induction xs) simp_all

lemma list_remove_absent: "v \<notin> set xs \<Longrightarrow> list_remove v xs = xs"
  by (induction xs) auto

text \<open>
  Claim C2, as stated, fails. With the subscriber list [1, 2, 1] (observer 1 attached
  twice), \<open>Detach\<close> of observer 1 leaves [2]: the later duplicate is removed too, where
  removing only the first matching entry (\<open>remove1\<close>) would leave [2, 1].
\<close>

theorem C2_detach_first_only_counterexample:
  "list_observer (Attach (Attach (Attach Publisher_new 1) 2) 1) = [1, 2, 1]
   \<and> list_observer (Detach (Attach (Attach (Attach Publisher_new 1) 2) 1) 1) = [2]
   \<and> remove1 1 (list_observer (Attach (Attach (Attach Publisher_new 1) 2) 1)) = [2, 1]
   \<and> list_observer (Detach (Attach (Attach (Attach Publisher_new 1) 2) 1) 1)
       \<noteq> remove1 1 (list_observer (Attach (Attach (Attach Publisher_new 1) 2) 1))
   \<and> 1 \<notin> set (list_observer (Detach (Attach (Attach (Attach Publisher_new 1) 2) 1) 1))"
  by (simp add: Attach_def Detach_def Publisher_new_def)

text \<open>
  Claim C2, amended. \<open>Attach\<close> appends the observer, so duplicates are permitted and
  insertion order is kept. \<open>Detach\<close> removes every entry equal to the observer: the list
  becomes the other entries in their order, the observer is no longer subscribed at all,
  and the message is untouched. \<open>Detach\<close> of an observer that is not in the list leaves
  the publisher unchanged.
\<close>

theorem C2_detach_removes_all:
  "list_observer (Attach p ob) = list_observer p @ [ob]
   \<and> list_observer (Detach p ob) = filter (\<lambda>x. x \<noteq> ob) (list_observer p)
   \<and> ob \<notin> set (list_observer (Detach p ob))
   \<and> message (Detach p ob) = message p
   \<and> (ob \<notin> set (list_observer p) \<longrightarrow> Detach p ob = p)"
proof -
  have a: "list_observer (Attach p ob) = list_observer p @ [ob]"
    by (simp add: Attach_def)
  have b: "list_observer (Detach p ob) = filter (\<lambda>x. x \<noteq> ob) (list_observer p)"
    by (simp add: Detach_def list_remove_filter)
  have c: "ob \<notin> set (list_observer (Detach p ob))"
    by (simp add: b)
  have d: "message (Detach p ob) = message p"
    by (simp add: Detach_def)
  have e: "ob \<notin> set (list_observer p) \<longrightarrow> Detach p ob = p"
    by (simp add: Detach_def list_remove_absent)
  from a b c d e show ?thesis by blast
qed

text \<open>
  The amended claim at the list [1, 2, 1]: observer 3 is not subscribed and detaching it
  changes nothing; detaching observer 2 leaves [1, 1].
\<close>

theorem C2_detach_witness:
  "3 \<notin> set (list_observer (Attach (Attach (Attach Publisher_new 1) 2) 1))
   \<and> Detach (Attach (Attach (Attach Publisher_new 1) 2) 1) 3 = Attach (Attach (Attach Publisher_new 1) 2) 1
   \<and> list_observer (Detach (Attach (Attach (Attach Publisher_new 1) 2) 1) 2) = [1, 1]"
proof -
  have h: "3 \<notin> set (list_observer (Attach (Attach (Attach Publisher_new 1) 2) 1))"
    by (simp add: Attach_def Publisher_new_def)
  have l: "list_observer (Attach (Attach (Attach Publisher_new 1) 2) 1) = [1, 2, 1]"
    by (simp add: Attach_def Publisher_new_def)
  from C2_detach_removes_all [of "Attach (Attach (Attach Publisher_new 1) 2) 1" 3] h
  have a: "Detach (Attach (Attach (Attach Publisher_new 1) 2) 1) 3 = Attach (Attach (Attach Publisher_new 1) 2) 1"
    by blast
  from C2_detach_removes_all [of "Attach (Attach (Attach Publisher_new 1) 2) 1" 2] l
  have b: "list_observer (Detach (Attach (Attach (Attach Publisher_new 1) 2) 1) 2) = [1, 1]"
    by simp
  from h a b show ?thesis by blast
qed

section \<open>Command: results\<close>

text \<open>
  Claim C3 against the code. An \<open>Invoker\<close> created over storage that held the non-null
  word 0xDEADBEEF in both members, with no setter called and no command object in
  memory, passes the test \<^verbatim>\<open>if (this->on_start_)\<close> and calls \<^verbatim>\<open>Execute\<close> through that
  word: \<open>DoSomethingImportant\<close> faults instead of skipping the slot. Only when the
  storage happened to hold zeros are both slots skipped and the three lines of the
  invoker written.
\<close>

theorem C3_unbound_slot_fault:
  "DoSomethingImportant \<lparr>commands = Map.empty, receivers = []\<rparr> (Invoker_new 3735928559 3735928559)
     = Inl (WildPointer 3735928559)
   \<and> DoSomethingImportant \<lparr>commands = Map.empty, receivers = []\<rparr> (Invoker_new 0 0)
     = Inr [''Invoker: Does anybody want something done before I begin?\<newline>'',
            ''Invoker: ...doing something really important...\<newline>'',
            ''Invoker: Does anybody want something done after I finish?\<newline>'']"
  by (simp add: DoSomethingImportant_def Invoker_new_def Execute_at_def)

section \<open>Singleton: results\<close>

lemma GetInstance_initialized:
  "m_instance_ptr st = Some p \<Longrightarrow> GetInstance v st = (p, st)"
  by (simp add: GetInstance_def)

lemma clients_initialized:
  "m_instance_ptr st = Some p \<Longrightarrow>
     clients vs st = (replicate (length vs) (p, Value st p), st)"
  by (induction vs) (simp_all add: GetInstance_initialized)

lemma GetInstance_first:
  "GetInstance v Singleton_static_init =
     (0, \<lparr>m_instance_ptr = Some 0, objects = [Singleton_ctor v]\<rparr>)"
  by (simp add: GetInstance_def Singleton_static_init_def)

lemma singleton_step_keeps:
  "m_instance_ptr st = Some p \<Longrightarrow> singleton_step c st = st"
  by (cases c) (simp_all add: GetInstance_initialized SomeBusinessLogic_def)

lemma singleton_steps_keep:
  "m_instance_ptr st = Some p \<Longrightarrow> fold singleton_step cs st = st"
  by (induction cs) (simp_all add: singleton_step_keeps)

text \<open>
  Claim C4. From the uninitialised static state, a sequence of clients calling
  \<open>GetInstance\<close> with the arguments \<open>v # vs\<close> all receive the same pointer, \<open>Value\<close> read
  through it is the first argument \<open>v\<close> for every one of them, and exactly one Singleton
  object, constructed from \<open>v\<close>, exists afterwards. Once \<open>m_instance_ptr\<close> is set, no
  sequence of the class's public operations changes the static state, so it never
  becomes null again.
\<close>

theorem C4_singleton_first_call_wins:
  "clients (v # vs) Singleton_static_init =
     (replicate (Suc (length vs)) (0, Some v),
      \<lparr>m_instance_ptr = Some 0, objects = [Singleton_ctor v]\<rparr>)
   \<and> (m_instance_ptr st \<noteq> None \<longrightarrow>
        fold singleton_step cs st = st \<and> m_instance_ptr (fold singleton_step cs st) \<noteq> None)"
proof -
  let ?st1 = "\<lparr>m_instance_ptr = Some 0, objects = [Singleton_ctor v]\<rparr>"
  have val: "Value ?st1 0 = Some v"
    by (simp add: Value_def Singleton_ctor_def)
  have rest: "clients vs ?st1 = (replicate (length vs) (0, Value ?st1 0), ?st1)"
    by (rule clients_initialized) simp
  have a: "clients (v # vs) Singleton_static_init =
     (replicate (Suc (length vs)) (0, Some v), ?st1)"
    by (simp add: GetInstance_first rest val)
  have b: "m_instance_ptr st \<noteq> None \<longrightarrow>
        fold singleton_step cs st = st \<and> m_instance_ptr (fold singleton_step cs st) \<noteq> None"
    by (auto simp: singleton_steps_keep)
  from a b show ?thesis by blast
qed

text \<open>
  Claim C4 at the driver's arguments: "FOO" first, then "BAR".
\<close>

theorem C4_singleton_witness:
  "m_instance_ptr (snd (GetInstance ''FOO\<newline>'' Singleton_static_init)) \<noteq> None
   \<and> fold singleton_step [Call_GetInstance ''BAR\<newline>'', Call_SomeBusinessLogic 0, Call_Value 0]
        (snd (GetInstance ''FOO\<newline>'' Singleton_static_init))
      = snd (GetInstance ''FOO\<newline>'' Singleton_static_init)
   \<and> clients [''FOO\<newline>'', ''BAR\<newline>''] Singleton_static_init =
       ([(0, Some ''FOO\<newline>''), (0, Some ''FOO\<newline>'')],
        \<lparr>m_instance_ptr = Some 0, objects = [Singleton_ctor ''FOO\<newline>'']\<rparr>)"
proof -
  have h: "m_instance_ptr (snd (GetInstance ''FOO\<newline>'' Singleton_static_init)) \<noteq> None"
    by (simp add: GetInstance_first)
  from h C4_singleton_first_call_wins
         [of "''FOO\<newline>''" "[''BAR\<newline>'']" "snd (GetInstance ''FOO\<newline>'' Singleton_static_init)"
             "[Call_GetInstance ''BAR\<newline>'', Call_SomeBusinessLogic 0, Call_Value 0]"]
  show ?thesis by simp
qed

lemma invar_init: "invar arg threads_init"
  by (simp add: invar_def stable_def threads_init_def)

lemma invarI:
  assumes "\<And>u. thread_ok arg s u (threads s u)"
    and "case m_mutex s of None \<Rightarrow> stable arg s | Some t \<Rightarrow> holds_lock (threads s t)"
  shows "invar arg s"
  using assms by (simp add: invar_def)

lemma invar_step:
  assumes "invar arg s"
  shows "invar arg (thread_step arg t s)"
proof -
  from assms have th: "\<And>u. thread_ok arg s u (threads s u)"
    and lk: "case m_mutex s of None \<Rightarrow> stable arg s | Some t \<Rightarrow> holds_lock (threads s t)"
    by (simp_all add: invar_def)
  show ?thesis
  proof (cases "threads s t")
    case Entry
    show ?thesis
    proof (cases "m_mutex s")
      case None
      let ?s' = "s\<lparr>m_mutex := Some t, threads := (threads s)(t := Test)\<rparr>"
      have step: "thread_step arg t s = ?s'"
        by (simp add: thread_step_def Entry None)
      have "thread_ok arg ?s' u (threads ?s' u)" for u
      proof (cases "u = t")
        case True
        with lk None show ?thesis by (simp add: stable_def made_def)
      next
        case False
        with th [of u] None show ?thesis
          by (cases "threads s u") (simp_all add: stable_def made_def)
      qed
      then show ?thesis unfolding step by (rule invarI) simp
    next
      case (Some a)
      with Entry assms show ?thesis by (simp add: thread_step_def)
    qed
  next
    case Test
    with th [of t] have m: "m_mutex s = Some t" and st: "stable arg s" by simp_all
    show ?thesis
    proof (cases "m_instance_ptr s")
      case None
      let ?s' = "s\<lparr>threads := (threads s)(t := Construct)\<rparr>"
      have step: "thread_step arg t s = ?s'"
        by (simp add: thread_step_def Test None)
      have "thread_ok arg ?s' u (threads ?s' u)" for u
      proof (cases "u = t")
        case True
        with m st None show ?thesis by (simp add: stable_def)
      next
        case False
        with th [of u] m show ?thesis
          by (cases "threads s u") (simp_all add: stable_def made_def)
      qed
      then show ?thesis unfolding step by (rule invarI) (simp add: m)
    next
      case (Some p)
      let ?s' = "s\<lparr>threads := (threads s)(t := Return)\<rparr>"
      have step: "thread_step arg t s = ?s'"
        by (simp add: thread_step_def Test Some)
      have "thread_ok arg ?s' u (threads ?s' u)" for u
      proof (cases "u = t")
        case True
        with m st Some show ?thesis by (simp add: stable_def made_def)
      next
        case False
        with th [of u] m show ?thesis
          by (cases "threads s u") (simp_all add: stable_def made_def)
      qed
      then show ?thesis unfolding step by (rule invarI) (simp add: m)
    qed
  next
    case Construct
    with th [of t] have m: "m_mutex s = Some t" and p: "m_instance_ptr s = None"
      and e: "objects s = []" by simp_all
    let ?s' = "s\<lparr>objects := objects s @ [Singleton_ctor (arg t)],
            threads := (threads s)(t := Assign (length (objects s)))\<rparr>"
    have step: "thread_step arg t s = ?s'"
      by (simp add: thread_step_def Construct)
    have "thread_ok arg ?s' u (threads ?s' u)" for u
    proof (cases "u = t")
      case True
      with m p e show ?thesis by (auto simp: made_def)
    next
      case False
      with th [of u] m p show ?thesis
        by (cases "threads s u") (simp_all add: stable_def made_def)
    qed
    then show ?thesis unfolding step by (rule invarI) (simp add: m)
  next
    case (Assign a)
    with th [of t] have m: "m_mutex s = Some t" and a: "a = 0" and p: "m_instance_ptr s = None"
      and e: "made arg s" by simp_all
    let ?s' = "s\<lparr>m_instance_ptr := Some a, threads := (threads s)(t := Return)\<rparr>"
    have step: "thread_step arg t s = ?s'"
      by (simp add: thread_step_def Assign)
    have "thread_ok arg ?s' u (threads ?s' u)" for u
    proof (cases "u = t")
      case True
      with m a e show ?thesis by (simp add: made_def)
    next
      case False
      with th [of u] m p show ?thesis
        by (cases "threads s u") (simp_all add: stable_def made_def)
    qed
    then show ?thesis unfolding step by (rule invarI) (simp add: m)
  next
    case Return
    with th [of t] have m: "m_mutex s = Some t" and p: "m_instance_ptr s = Some 0"
      and e: "made arg s" by simp_all
    let ?s' = "s\<lparr>threads := (threads s)(t := Unlock (m_instance_ptr s))\<rparr>"
    have step: "thread_step arg t s = ?s'"
      by (simp add: thread_step_def Return)
    have "thread_ok arg ?s' u (threads ?s' u)" for u
    proof (cases "u = t")
      case True
      with m p e show ?thesis by (simp add: made_def)
    next
      case False
      with th [of u] m p show ?thesis
        by (cases "threads s u") (simp_all add: stable_def made_def)
    qed
    then show ?thesis unfolding step by (rule invarI) (simp add: m)
  next
    case (Unlock r)
    with th [of t] have m: "m_mutex s = Some t" and r: "r = Some 0"
      and p: "m_instance_ptr s = Some 0" and e: "made arg s" by simp_all
    let ?s' = "s\<lparr>m_mutex := None, threads := (threads s)(t := Done r)\<rparr>"
    have step: "thread_step arg t s = ?s'"
      by (simp add: thread_step_def Unlock)
    have "thread_ok arg ?s' u (threads ?s' u)" for u
    proof (cases "u = t")
      case True
      with r p e show ?thesis by (simp add: made_def)
    next
      case False
      with th [of u] m p show ?thesis
        by (cases "threads s u") (simp_all add: stable_def made_def)
    qed
    then show ?thesis unfolding step by (rule invarI) (simp add: stable_def made_def p e [unfolded made_def])
  next
    case (Done r)
    with assms show ?thesis by (simp add: thread_step_def)
  qed
qed

lemma invar_run: "invar arg s \<Longrightarrow> invar arg (run arg schedule s)"
  unfolding run_def by (induction schedule arbitrary: s) (simp_all add: invar_step)


text \<open>
  A thread that runs alone from \<open>Entry\<close> with the mutex free returns after six steps,
  and its effect on the static state and its result are those of the sequential
  \<open>GetInstance\<close>.
\<close>

lemma solo_run:
  assumes "m_mutex s = None" and "threads s t = Entry"
  shows "run arg (replicate 6 t) s =
     (case GetInstance (arg t) (Singleton_static.truncate s) of
        (p, st') \<Rightarrow>
          s\<lparr>m_instance_ptr := m_instance_ptr st', objects := objects st',
            threads := (threads s)(t := Done (Some p))\<rparr>)"
proof (cases "m_instance_ptr s")
  case None
  with assms show ?thesis
    by (simp add: run_def eval_nat_numeral thread_step_def GetInstance_def
        Singleton_static.truncate_def)
next
  case (Some p)
  with assms show ?thesis
    by (simp add: run_def eval_nat_numeral thread_step_def GetInstance_def
        Singleton_static.truncate_def)
qed

text \<open>
  Progress of the interleaved execution. The thread that owns the mutex returns within
  five steps of its own and leaves the mutex free; a thread at \<open>Entry\<close> with the mutex
  free returns within six; a thread that has returned stays returned. Hence from every
  reachable state every caller can be brought to its return.
\<close>

lemma run_append: "run arg (a @ b) s = run arg b (run arg a s)"
  by (simp add: run_def)

lemma finish_holder:
  assumes "holds_lock (threads s u)"
  shows "(\<exists>r. threads (run arg (replicate 5 u) s) u = Done r)
       \<and> m_mutex (run arg (replicate 5 u) s) = None
       \<and> (\<forall>v. v \<noteq> u \<longrightarrow> threads (run arg (replicate 5 u) s) v = threads s v)"
proof (cases "threads s u")
  case Test
  then show ?thesis
    by (cases "m_instance_ptr s")
       (simp_all add: run_def eval_nat_numeral thread_step_def)
qed (use assms in \<open>simp_all add: run_def eval_nat_numeral thread_step_def\<close>)

lemma finish_entry:
  assumes "m_mutex s = None" and "threads s t = Entry"
  shows "\<exists>r. threads (run arg (replicate 6 t) s) t = Done r"
  using assms
  by (cases "m_instance_ptr s")
     (simp_all add: run_def eval_nat_numeral thread_step_def)

lemma Done_step: "threads s t = Done r \<Longrightarrow> threads (thread_step arg u s) t = Done r"
  by (cases "u = t") (simp_all add: thread_step_def split: pc.splits option.splits)

lemma Done_run: "threads s t = Done r \<Longrightarrow> threads (run arg cont s) t = Done r"
  unfolding run_def by (induction cont arbitrary: s) (simp_all add: Done_step)

lemma progress:
  assumes "invar arg s"
  shows "\<exists>cont r. threads (run arg cont s) t = Done r"
proof -
  from assms have th: "\<And>u. thread_ok arg s u (threads s u)"
    and lk: "case m_mutex s of None \<Rightarrow> stable arg s | Some t \<Rightarrow> holds_lock (threads s t)"
    by (simp_all add: invar_def)
  have own: "m_mutex s = Some v" if "holds_lock (threads s v)" for v
    using that th [of v] by (cases "threads s v") simp_all
  show ?thesis
  proof (cases "holds_lock (threads s t)")
    case True
    from finish_holder [OF True, of arg] show ?thesis by blast
  next
    case idle: False
    show ?thesis
    proof (cases "threads s t")
      case (Done r)
      then have "threads (run arg [] s) t = Done r" by (simp add: run_def)
      then show ?thesis by blast
    next
      case Entry
      show ?thesis
      proof (cases "m_mutex s")
        case None
        from finish_entry [OF None Entry, of arg] show ?thesis by blast
      next
        case (Some u)
        with lk have hu: "holds_lock (threads s u)" by simp
        with idle have ne: "t \<noteq> u" by auto
        let ?s1 = "run arg (replicate 5 u) s"
        from finish_holder [OF hu, of arg] ne Entry
        have free: "m_mutex ?s1 = None" and ent: "threads ?s1 t = Entry" by auto
        from finish_entry [OF free ent, of arg]
        obtain r where "threads (run arg (replicate 6 t) ?s1) t = Done r" by blast
        then have "threads (run arg (replicate 5 u @ replicate 6 t) s) t = Done r"
          by (simp only: run_append)
        then show ?thesis by blast
      qed
    qed (use idle in simp_all)
  qed
qed

lemma all_return:
  assumes "invar arg s"
  shows "\<exists>cont. \<forall>t\<in>set ts. \<exists>r. threads (run arg cont s) t = Done r"
proof (induction ts)
  case Nil
  show ?case by simp
next
  case (Cons t ts)
  then obtain c1 where c1: "\<forall>u\<in>set ts. \<exists>r. threads (run arg c1 s) u = Done r" by blast
  have "invar arg (run arg c1 s)" using assms by (rule invar_run)
  from progress [OF this, of t] obtain c2 r where
    c2: "threads (run arg c2 (run arg c1 s)) t = Done r" by blast
  have "\<forall>u\<in>set (t # ts). \<exists>r. threads (run arg (c1 @ c2) s) u = Done r"
    using c1 c2 by (auto simp: run_append Done_run)
  then show ?case by blast
qed

lemma invar_safety:
  assumes "invar arg s"
  shows "(\<forall>t u. holds_lock (threads s t) \<and> holds_lock (threads s u) \<longrightarrow> t = u)
       \<and> (\<forall>t. holds_lock (threads s t) \<longrightarrow> m_mutex s = Some t)
       \<and> length (objects s) \<le> 1
       \<and> (\<forall>t r. threads s t = Done r \<longrightarrow>
             r = Some 0 \<and> m_instance_ptr s = Some 0
             \<and> (\<exists>w. objects s = [Singleton_ctor (arg w)]))"
proof -
  from assms have th: "\<And>u. thread_ok arg s u (threads s u)"
    and lk: "case m_mutex s of None \<Rightarrow> stable arg s | Some t \<Rightarrow> holds_lock (threads s t)"
    by (simp_all add: invar_def)
  have own: "m_mutex s = Some t" if "holds_lock (threads s t)" for t
    using that th [of t] by (cases "threads s t") simp_all
  have excl: "t = u" if "holds_lock (threads s t)" "holds_lock (threads s u)" for t u
    using own [OF that(1)] own [OF that(2)] by simp
  have once: "length (objects s) \<le> 1"
  proof (cases "m_mutex s")
    case None
    with lk show ?thesis by (auto simp: stable_def made_def)
  next
    case (Some t)
    with lk have "holds_lock (threads s t)" by simp
    with th [of t] show ?thesis
      by (cases "threads s t") (auto simp: stable_def made_def)
  qed
  have same: "r = Some 0 \<and> m_instance_ptr s = Some 0 \<and> (\<exists>w. objects s = [Singleton_ctor (arg w)])"
    if "threads s t = Done r" for t r
    using that th [of t] by (simp add: made_def)
  from own excl once same show ?thesis by blast
qed


text \<open>
  Claim C5. In the state reached by any schedule of any number of threads from the
  initial state: at most one thread is inside the guarded check-and-create region, and
  it owns the mutex; at most one Singleton object has been constructed; and every thread
  that has returned has returned the same pointer, which is \<open>m_instance_ptr\<close> and points
  to the one object constructed, from the argument of some thread. Moreover no caller
  is ever stuck: for any callers \<open>c # callers\<close> the schedule can be continued so that all
  of them have returned that one pointer, with exactly one object constructed.
\<close>

theorem C5_concurrent_first_access:
  assumes "s = run arg schedule threads_init"
  shows "(\<forall>t u. holds_lock (threads s t) \<and> holds_lock (threads s u) \<longrightarrow> t = u)
       \<and> (\<forall>t. holds_lock (threads s t) \<longrightarrow> m_mutex s = Some t)
       \<and> length (objects s) \<le> 1
       \<and> (\<forall>t r. threads s t = Done r \<longrightarrow>
             r = Some 0 \<and> m_instance_ptr s = Some 0
             \<and> (\<exists>w. objects s = [Singleton_ctor (arg w)]))
       \<and> (\<exists>cont.
             (\<forall>t\<in>set (c # callers).
                threads (run arg (schedule @ cont) threads_init) t = Done (Some 0))
             \<and> m_instance_ptr (run arg (schedule @ cont) threads_init) = Some 0
             \<and> (\<exists>w. objects (run arg (schedule @ cont) threads_init) = [Singleton_ctor (arg w)]))"
proof -
  have inv: "invar arg s"
    unfolding assms by (rule invar_run) (rule invar_init)
  from all_return [OF inv, of "c # callers"] obtain cont where
    ret: "\<forall>t\<in>set (c # callers). \<exists>r. threads (run arg cont s) t = Done r" by blast
  let ?s' = "run arg (schedule @ cont) threads_init"
  have s': "?s' = run arg cont s"
    by (simp add: run_append assms)
  have "invar arg ?s'"
    unfolding s' using inv by (rule invar_run)
  note safe' = invar_safety [OF this]
  from ret have ret': "\<forall>t\<in>set (c # callers). \<exists>r. threads ?s' t = Done r"
    by (simp only: s')
  with safe' have all: "\<forall>t\<in>set (c # callers). threads ?s' t = Done (Some 0)"
    by blast
  from ret' obtain r where "threads ?s' c = Done r" by auto
  with safe' have one: "m_instance_ptr ?s' = Some 0"
    "\<exists>w. objects ?s' = [Singleton_ctor (arg w)]"
    by blast+
  from all one have "\<exists>cont.
             (\<forall>t\<in>set (c # callers).
                threads (run arg (schedule @ cont) threads_init) t = Done (Some 0))
             \<and> m_instance_ptr (run arg (schedule @ cont) threads_init) = Some 0
             \<and> (\<exists>w. objects (run arg (schedule @ cont) threads_init) = [Singleton_ctor (arg w)])"
    by blast
  with invar_safety [OF inv] show ?thesis by blast
qed


text \<open>
  Claim C5 at thread 0 calling with "FOO" and thread 1 with "BAR". Thread 1 takes the
  lock first; the three attempts of thread 0 that follow leave it at \<open>Entry\<close> while
  thread 1 is inside. After the whole schedule both have returned pointer 0, and the one
  object holds "BAR". From the state in which thread 1 is inside, the schedule can be
  continued so that threads 0, 1 and 2 have all returned pointer 0.
\<close>

theorem C5_concurrent_witness:
  "threads (run (\<lambda>t. if t = 0 then ''FOO\<newline>'' else ''BAR\<newline>'') [1, 0, 1, 0, 1, 0, 1, 1, 1, 0, 0, 0, 0]
             threads_init) 0 = Done (Some 0)
   \<and> threads (run (\<lambda>t. if t = 0 then ''FOO\<newline>'' else ''BAR\<newline>'') [1, 0, 1, 0, 1, 0, 1, 1, 1, 0, 0, 0, 0]
             threads_init) 1 = Done (Some 0)
   \<and> threads (run (\<lambda>t. if t = 0 then ''FOO\<newline>'' else ''BAR\<newline>'') [1, 0, 1, 0, 1, 0]
             threads_init) 0 = Entry
   \<and> holds_lock (threads (run (\<lambda>t. if t = 0 then ''FOO\<newline>'' else ''BAR\<newline>'') [1, 0, 1, 0, 1, 0]
             threads_init) 1)
   \<and> m_mutex (run (\<lambda>t. if t = 0 then ''FOO\<newline>'' else ''BAR\<newline>'') [1, 0, 1, 0, 1, 0] threads_init) = Some 1
   \<and> m_instance_ptr (run (\<lambda>t. if t = 0 then ''FOO\<newline>'' else ''BAR\<newline>'') [1, 0, 1, 0, 1, 0, 1, 1, 1, 0, 0, 0, 0]
             threads_init) = Some 0
   \<and> objects (run (\<lambda>t. if t = 0 then ''FOO\<newline>'' else ''BAR\<newline>'') [1, 0, 1, 0, 1, 0, 1, 1, 1, 0, 0, 0, 0]
             threads_init) = [Singleton_ctor ''BAR\<newline>'']
   \<and> (\<exists>cont.
         threads (run (\<lambda>t. if t = 0 then ''FOO\<newline>'' else ''BAR\<newline>'') ([1, 0, 1, 0, 1, 0] @ cont)
             threads_init) 0 = Done (Some 0)
       \<and> threads (run (\<lambda>t. if t = 0 then ''FOO\<newline>'' else ''BAR\<newline>'') ([1, 0, 1, 0, 1, 0] @ cont)
             threads_init) 1 = Done (Some 0)
       \<and> threads (run (\<lambda>t. if t = 0 then ''FOO\<newline>'' else ''BAR\<newline>'') ([1, 0, 1, 0, 1, 0] @ cont)
             threads_init) 2 = Done (Some 0))"
proof -
  let ?arg = "\<lambda>t::nat. if t = 0 then ''FOO\<newline>'' else ''BAR\<newline>''"
  let ?mid = "run ?arg [1, 0, 1, 0, 1, 0] threads_init"
  let ?fin = "run ?arg [1, 0, 1, 0, 1, 0, 1, 1, 1, 0, 0, 0, 0] threads_init"
  have d0: "threads ?fin 0 = Done (Some 0)"
    by (simp add: run_def thread_step_def threads_init_def)
  have d1: "threads ?fin 1 = Done (Some 0)"
    by (simp add: run_def thread_step_def threads_init_def)
  have e0: "threads ?mid 0 = Entry"
    by (simp add: run_def thread_step_def threads_init_def)
  have h1: "holds_lock (threads ?mid 1)"
    by (simp add: run_def thread_step_def threads_init_def)
  have ob: "objects ?fin = [Singleton_ctor ''BAR\<newline>'']"
    by (simp add: run_def thread_step_def threads_init_def)
  note mid = C5_concurrent_first_access [OF refl, of ?arg "[1, 0, 1, 0, 1, 0]" 0 "[1, 2]"]
  from mid h1 have mx: "m_mutex ?mid = Some 1" by blast
  from mid obtain cont where
    "\<forall>t\<in>set [0, 1, 2]. threads (run ?arg ([1, 0, 1, 0, 1, 0] @ cont) threads_init) t = Done (Some 0)"
    by blast
  then have pr: "\<exists>cont.
         threads (run ?arg ([1, 0, 1, 0, 1, 0] @ cont) threads_init) 0 = Done (Some 0)
       \<and> threads (run ?arg ([1, 0, 1, 0, 1, 0] @ cont) threads_init) 1 = Done (Some 0)
       \<and> threads (run ?arg ([1, 0, 1, 0, 1, 0] @ cont) threads_init) 2 = Done (Some 0)"
    by auto
  from C5_concurrent_first_access [OF refl, of ?arg "[1, 0, 1, 0, 1, 0, 1, 1, 1, 0, 0, 0, 0]" 0 "[]"] d0
  have pt: "m_instance_ptr ?fin = Some 0" by blast
  from d0 d1 e0 h1 mx pt ob pr show ?thesis by blast
qed


section \<open>Prototype: results\<close>

lemma deref_append_old: "p < length h \<Longrightarrow> deref (h @ xs) p = deref h p"
  by (simp add: deref_def nth_append)

lemma deref_append_new: "deref (h @ [x]) (length h) = Some x"
  by (simp add: deref_def)

lemma copy_construct_same: "copy_construct obj = obj"
  by (cases obj) simp_all

lemma prototype_field_assigned: "prototype_field (assign_prototype_field obj v) = v"
  by (cases obj) simp_all

text \<open>
  Claim C9. For every live prototype object \<open>obj\<close> at address \<open>p\<close>, \<open>Clone\<close> succeeds and
  returns an address \<open>q\<close> that was not in use and differs from \<open>p\<close>; the object at \<open>q\<close> is
  of the same class with the same three member values, the original and every other
  object are untouched, and a later \<open>Method\<close> call on the original, with any value \<open>v\<close>,
  succeeds, sets the original's \<open>prototype_field\<close> to \<open>v\<close> and leaves the clone as it
  was.
\<close>

theorem C9_clone_independent:
  "deref h p = Some obj \<Longrightarrow>
     \<exists>q h'. Clone h p = Some (q, h')
       \<and> deref h q = None \<and> q \<noteq> p
       \<and> deref h' q = Some obj
       \<and> deref h' p = Some obj
       \<and> (\<forall>a. a \<noteq> q \<longrightarrow> deref h' a = deref h a)
       \<and> (\<forall>v. \<exists>h''. Method h' p v = Some h''
              \<and> deref h'' p = Some (assign_prototype_field obj v)
              \<and> prototype_field (assign_prototype_field obj v) = v
              \<and> deref h'' q = Some obj)"
proof -
  assume live: "deref h p = Some obj"
  then have p: "p < length h" and obj: "h ! p = obj"
    by (auto simp: deref_def split: if_splits)
  let ?q = "length h"
  let ?h' = "h @ [obj]"
  have clone: "Clone h p = Some (?q, ?h')"
    by (simp add: Clone_def live copy_construct_same)
  have fresh: "deref h ?q = None" "?q \<noteq> p"
    using p by (simp_all add: deref_def)
  have q': "deref ?h' ?q = Some obj"
    by (rule deref_append_new)
  have p': "deref ?h' p = Some obj"
    using p live by (simp add: deref_append_old)
  have others: "\<forall>a. a \<noteq> ?q \<longrightarrow> deref ?h' a = deref h a"
    by (auto simp: deref_def nth_append)
  have meth: "\<forall>v. \<exists>h''. Method ?h' p v = Some h''
              \<and> deref h'' p = Some (assign_prototype_field obj v)
              \<and> prototype_field (assign_prototype_field obj v) = v
              \<and> deref h'' ?q = Some obj"
  proof
    fix v
    let ?h'' = "?h'[p := assign_prototype_field obj v]"
    have m: "Method ?h' p v = Some ?h''"
      by (simp add: Method_def p')
    have mp: "deref ?h'' p = Some (assign_prototype_field obj v)"
      using p by (simp add: deref_def)
    have mq: "deref ?h'' ?q = Some obj"
      using p by (simp add: deref_def)
    from m mp mq prototype_field_assigned [of obj v]
    show "\<exists>h''. Method ?h' p v = Some h''
              \<and> deref h'' p = Some (assign_prototype_field obj v)
              \<and> prototype_field (assign_prototype_field obj v) = v
              \<and> deref h'' ?q = Some obj"
      by blast
  qed
  from clone fresh q' p' others meth show ?thesis by blast
qed


text \<open>
  Claim C9 at the factory's first prototype, cloned and then modified by \<open>Method(90)\<close>.
\<close>

theorem C9_clone_witness:
  "deref [ConcretePrototype1 ''PROTOTYPE_1 '' (0::int) 50, ConcretePrototype2 ''PROTOTYPE_2 '' 0 60] 0
     = Some (ConcretePrototype1 ''PROTOTYPE_1 '' 0 50)
   \<and> (\<exists>q h'. Clone [ConcretePrototype1 ''PROTOTYPE_1 '' (0::int) 50,
                     ConcretePrototype2 ''PROTOTYPE_2 '' 0 60] 0 = Some (q, h')
        \<and> q \<noteq> 0
        \<and> deref h' q = Some (ConcretePrototype1 ''PROTOTYPE_1 '' 0 50)
        \<and> (\<exists>h''. Method h' 0 90 = Some h''
              \<and> deref h'' 0 = Some (ConcretePrototype1 ''PROTOTYPE_1 '' 90 50)
              \<and> deref h'' q = Some (ConcretePrototype1 ''PROTOTYPE_1 '' 0 50)))"
proof -
  let ?h = "[ConcretePrototype1 ''PROTOTYPE_1 '' (0::int) 50, ConcretePrototype2 ''PROTOTYPE_2 '' 0 60]"
  let ?obj = "ConcretePrototype1 ''PROTOTYPE_1 '' (0::int) 50"
  have live: "deref ?h 0 = Some ?obj"
    by (simp add: deref_def)
  have upd: "assign_prototype_field ?obj 90 = ConcretePrototype1 ''PROTOTYPE_1 '' 90 50"
    by simp
  from C9_clone_independent [OF live] obtain q h' where
    c: "Clone ?h 0 = Some (q, h')" and n: "q \<noteq> 0" and dq: "deref h' q = Some ?obj" and
    m: "\<forall>v. \<exists>h''. Method h' 0 v = Some h''
              \<and> deref h'' 0 = Some (assign_prototype_field ?obj v)
              \<and> prototype_field (assign_prototype_field ?obj v) = v
              \<and> deref h'' q = Some ?obj"
    by blast
  from m obtain h'' where
    "Method h' 0 90 = Some h''" "deref h'' 0 = Some (assign_prototype_field ?obj 90)"
    "deref h'' q = Some ?obj"
    by blast
  with live c n dq upd show ?thesis by auto
qed

section \<open>Flyweight: results\<close>

lemma first_GetFlyweight:
  "GetFlyweight [] \<lparr>flyweights = []\<rparr> s1 =
     Some (\<lparr>shared_state = 3\<rparr>, [None, None, Some s1, Some s1],
           \<lparr>flyweights = [(GetKey s1, \<lparr>shared_state = 2\<rparr>)]\<rparr>,
           [''FlyweightFactory: Cannot find a flyweight, creating new one.\<newline>''])"
  by (simp add: GetFlyweight_def insert_new_def Flyweight_ctor_def Flyweight_copy_def
      Flyweight_dtor_def new_SharedState_def delete_SharedState_def load_def)

lemma second_GetFlyweight:
  "GetKey s2 = GetKey s1 \<Longrightarrow>
   GetFlyweight [None, None, Some s1, Some s1]
       \<lparr>flyweights = [(GetKey s1, \<lparr>shared_state = 2\<rparr>)]\<rparr> s2 =
     Some (\<lparr>shared_state = 4\<rparr>, [None, None, Some s1, Some s1, Some s1],
           \<lparr>flyweights = [(GetKey s1, \<lparr>shared_state = 2\<rparr>)]\<rparr>,
           [''FlyweightFactory: Reusing existing flyweight.\<newline>''])"
  by (simp add: GetFlyweight_def Flyweight_ctor_def Flyweight_copy_def
      new_SharedState_def load_def)

text \<open>
  Claim C1 against the code. On an empty factory, two calls of \<open>GetFlyweight\<close> with the
  shared state (BMW, M5, red): the first stores one entry, whose state is at address 2,
  and returns a flyweight whose state is at address 3; the second finds that entry
  (no new entry, "Reusing existing flyweight") and returns a flyweight whose state is at
  address 4. Both results are copies made by the copy constructor: they are neither each
  other nor the cached object, and three copies of the shared state are alive at the end.
\<close>

theorem C1_GetFlyweight_returns_copies:
  "FlyweightFactory_ctor [] [] = Some ([], \<lparr>flyweights = []\<rparr>)
   \<and> GetFlyweight [] \<lparr>flyweights = []\<rparr> \<lparr>brand = ''BMW'', model = ''M5'', color = ''red''\<rparr> =
       Some (\<lparr>shared_state = 3\<rparr>,
             [None, None, Some \<lparr>brand = ''BMW'', model = ''M5'', color = ''red''\<rparr>,
              Some \<lparr>brand = ''BMW'', model = ''M5'', color = ''red''\<rparr>],
             \<lparr>flyweights = [(''BMW_M5_red'', \<lparr>shared_state = 2\<rparr>)]\<rparr>,
             [''FlyweightFactory: Cannot find a flyweight, creating new one.\<newline>''])
   \<and> GetFlyweight
         [None, None, Some \<lparr>brand = ''BMW'', model = ''M5'', color = ''red''\<rparr>,
          Some \<lparr>brand = ''BMW'', model = ''M5'', color = ''red''\<rparr>]
         \<lparr>flyweights = [(''BMW_M5_red'', \<lparr>shared_state = 2\<rparr>)]\<rparr>
         \<lparr>brand = ''BMW'', model = ''M5'', color = ''red''\<rparr> =
       Some (\<lparr>shared_state = 4\<rparr>,
             [None, None, Some \<lparr>brand = ''BMW'', model = ''M5'', color = ''red''\<rparr>,
              Some \<lparr>brand = ''BMW'', model = ''M5'', color = ''red''\<rparr>,
              Some \<lparr>brand = ''BMW'', model = ''M5'', color = ''red''\<rparr>],
             \<lparr>flyweights = [(''BMW_M5_red'', \<lparr>shared_state = 2\<rparr>)]\<rparr>,
             [''FlyweightFactory: Reusing existing flyweight.\<newline>''])
   \<and> \<lparr>shared_state = 3\<rparr> \<noteq> \<lparr>shared_state = 4\<rparr>
   \<and> \<lparr>shared_state = 3\<rparr> \<noteq> \<lparr>shared_state = 2\<rparr>
   \<and> \<lparr>shared_state = 4\<rparr> \<noteq> \<lparr>shared_state = 2\<rparr>"
proof -
  let ?bmw = "\<lparr>brand = ''BMW'', model = ''M5'', color = ''red''\<rparr>"
  have k: "GetKey ?bmw = ''BMW_M5_red''"
    by (simp add: GetKey_def)
  have c: "FlyweightFactory_ctor [] [] = Some ([], \<lparr>flyweights = []\<rparr>)"
    by (simp add: FlyweightFactory_ctor_def)
  from c first_GetFlyweight [of ?bmw] second_GetFlyweight [of ?bmw ?bmw] k
  show ?thesis by simp
qed







end
